theory Spec2Isabelle
  imports Main "HOL-Library.Word"
begin

unbundle bit_operations_syntax

section \<open>The serial (tty) driver of src/tty.c\<close>

text \<open>
  The driver is embedded by explicit state passing. A C \<open>int\<close> that holds a count, a
  port number or a register value is an \<open>int\<close> (no computation in the driver can leave
  the 32-bit range: the only arithmetic is \<open>i++\<close> below \<open>nchar\<close> and the sum of a base
  port and a register offset); a data byte is an \<open>8 word\<close>.
\<close>

type_synonym byte = "8 word"

subsection \<open>Constants and tables of the absent headers\<close>

text \<open>
  The headers \<open>serial.h\<close>, \<open>pic.h\<close>, \<open>ioconf.h\<close> and \<open>tty_public.h\<close> are not part of
  the sources; every constant and table that \<open>tty.c\<close> takes from them is a field of the
  parameter \<open>K\<close> that each operation receives. The device table \<open>devtab\<close> is read only:
  \<open>dvbaseport\<close> is the hardware address of a device and \<open>dvdata\<close> the \<open>struct tty\<close> its
  \<open>dvdata\<close> pointer refers to, as an index into \<open>ttytab\<close>. \<open>EMPTYQUE\<close> is the integer
  that \<open>dequeue\<close> returns on an empty queue.
\<close>

record config =
  COM1_BASE :: int
  COM2_BASE :: int
  COM1_IRQ :: int
  COM2_IRQ :: int
  IRQ_TO_INT_N_SHIFT :: int
  UART_RX :: int
  UART_TX :: int
  UART_IER :: int
  UART_IIR :: int
  UART_IER_RDI :: int
  UART_IER_THRI :: int
  UART_IIR_ID :: int
  UART_IIR_RDI :: int
  UART_IIR_THRI :: int
  ECHOCONTROL :: int
  TTY0 :: int
  TTY1 :: int
  EMPTYQUE :: int
  dvbaseport :: "int \<Rightarrow> int"
  dvdata :: "int \<Rightarrow> nat"

text \<open>\<open>#define MAXBUF 6\<close> of \<open>tty.h\<close>.\<close>

definition MAXBUF :: nat where
  "MAXBUF = 6"

subsection \<open>The bounded queue\<close>

text \<open>
  Modelled from the spec: the queue module \<open>queue/queue.h\<close> (the type \<open>Queue\<close> and
  \<open>init_queue\<close>, \<open>enqueue\<close>, \<open>dequeue\<close>, \<open>queuecount\<close>) is not part of the sources.
  A queue is a fixed capacity and the bytes it holds, oldest first. \<open>enqueue\<close> appends at
  the tail when the count is below the capacity and otherwise reports full (\<open>False\<close>, the
  code's \<open>FULLQUE\<close>) without changing the queue; \<open>dequeue\<close> removes from the head when
  the count is positive and otherwise reports empty (\<open>None\<close>, the code's \<open>EMPTYQUE\<close>)
  without changing the queue.
\<close>

record queue =
  qmax :: nat
  items :: "byte list"

definition init_queue :: "nat \<Rightarrow> queue" where
  "init_queue n = \<lparr>qmax = n, items = []\<rparr>"

definition enqueue :: "queue \<Rightarrow> byte \<Rightarrow> bool \<times> queue" where
  "enqueue q b =
     (if length (items q) < qmax q then (True, q\<lparr>items := items q @ [b]\<rparr>)
      else (False, q))"

definition dequeue :: "queue \<Rightarrow> byte option \<times> queue" where
  "dequeue q =
     (case items q of
        [] \<Rightarrow> (None, q)
      | b # bs \<Rightarrow> (Some b, q\<lparr>items := bs\<rparr>))"

definition queuecount :: "queue \<Rightarrow> nat" where
  "queuecount q = length (items q)"

subsection \<open>Driver state and the calls it makes\<close>

text \<open>
  The three queues are the globals \<open>inQueue\<close>, \<open>outQueue\<close> and \<open>echoQueue\<close> of
  \<open>tty.c\<close>; \<open>ttytab\<close> holds the \<open>echoflag\<close> of each \<open>struct tty\<close>; \<open>debug_area\<close> is
  the part of the debug log between \<open>debug_log_area\<close> and \<open>debug_record\<close>;
  \<open>eflags_IF\<close> is the interrupt flag of the CPU and \<open>running\<close> tells whether the
  CPU is in a system call or in an interrupt handler. \<open>events\<close> lists, in order, the
  calls the driver has made to the hardware layer, to the kernel and to the queue module,
  each with the context that made the call and the value of the interrupt flag at that
  moment.
\<close>

datatype ctx = Task | Isr

datatype qid = QIn | QOut | QEcho

datatype handler = Irq3inthand | Irq4inthand

datatype event =
    Outpt int int
  | Inpt int int
  | SetIntrGate int handler
  | PicEnableIrq int
  | PicEndInt
  | Kprintf string int
  | Cli
  | Sti
  | SetEflags bool
  | Enqueue qid byte bool
  | Dequeue qid "byte option"

record tty_state =
  inQueue :: queue
  outQueue :: queue
  echoQueue :: queue
  ttytab :: "nat \<Rightarrow> int"
  debug_area :: "byte list"
  eflags_IF :: bool
  running :: ctx
  events :: "(ctx \<times> bool \<times> event) list"

definition emit :: "event \<Rightarrow> tty_state \<Rightarrow> tty_state" where
  "emit e s = s\<lparr>events := events s @ [(running s, eflags_IF s, e)]\<rparr>"

definition get_queue :: "qid \<Rightarrow> tty_state \<Rightarrow> queue" where
  "get_queue q s = (case q of QIn \<Rightarrow> inQueue s | QOut \<Rightarrow> outQueue s | QEcho \<Rightarrow> echoQueue s)"

definition set_queue :: "qid \<Rightarrow> queue \<Rightarrow> tty_state \<Rightarrow> tty_state" where
  "set_queue q v s =
     (case q of QIn \<Rightarrow> s\<lparr>inQueue := v\<rparr> | QOut \<Rightarrow> s\<lparr>outQueue := v\<rparr>
      | QEcho \<Rightarrow> s\<lparr>echoQueue := v\<rparr>)"

text \<open>\<open>enqueue(&q, b)\<close> and \<open>dequeue(&q)\<close> on one of the global queues.\<close>

definition do_enqueue :: "qid \<Rightarrow> byte \<Rightarrow> tty_state \<Rightarrow> bool \<times> tty_state" where
  "do_enqueue q b s =
     (let (ok, v) = enqueue (get_queue q s) b
      in (ok, emit (Enqueue q b ok) (set_queue q v s)))"

definition do_dequeue :: "qid \<Rightarrow> tty_state \<Rightarrow> byte option \<times> tty_state" where
  "do_dequeue q s =
     (let (r, v) = dequeue (get_queue q s)
      in (r, emit (Dequeue q r) (set_queue q v s)))"

text \<open>The integer that the C \<open>dequeue\<close> hands back for a result of the queue.\<close>

definition dequeued_int :: "config \<Rightarrow> byte option \<Rightarrow> int" where
  "dequeued_int K r = (case r of None \<Rightarrow> EMPTYQUE K | Some b \<Rightarrow> uint b)"

definition outpt :: "int \<Rightarrow> int \<Rightarrow> tty_state \<Rightarrow> tty_state" where
  "outpt port v s = emit (Outpt port v) s"

definition cli :: "tty_state \<Rightarrow> tty_state" where
  "cli s = (emit Cli s)\<lparr>eflags_IF := False\<rparr>"

definition sti :: "tty_state \<Rightarrow> tty_state" where
  "sti s = (emit Sti s)\<lparr>eflags_IF := True\<rparr>"

definition get_eflags :: "tty_state \<Rightarrow> bool" where
  "get_eflags s = eflags_IF s"

definition set_eflags :: "bool \<Rightarrow> tty_state \<Rightarrow> tty_state" where
  "set_eflags f s = (emit (SetEflags f) s)\<lparr>eflags_IF := f\<rparr>"

text \<open>
  \<open>debug_log\<close>: \<open>strcpy\<close> to \<open>debug_record\<close>, which then advances by \<open>strlen\<close>: the
  bytes of the message before its first NUL are appended.
\<close>

definition debug_log :: "byte list \<Rightarrow> tty_state \<Rightarrow> tty_state" where
  "debug_log msg s = s\<lparr>debug_area := debug_area s @ takeWhile (\<lambda>b. b \<noteq> 0) msg\<rparr>"

subsection \<open>ttyinit\<close>

definition bad_entry_msg :: string where
  "bad_entry_msg = ''Bad TTY device table entry, dev %d'' @ [CHR 0x0A]"

definition ttyinit :: "config \<Rightarrow> int \<Rightarrow> tty_state \<Rightarrow> tty_state" where
  "ttyinit K dev s0 =
     (let s1 = s0\<lparr>inQueue := init_queue MAXBUF, outQueue := init_queue MAXBUF,
                  echoQueue := init_queue MAXBUF\<rparr>;
          s2 = s1\<lparr>debug_area := []\<rparr>;
          baseport = dvbaseport K dev;
          tty = dvdata K dev
      in if baseport = COM1_BASE K then
           (let s3 = emit (SetIntrGate (COM1_IRQ K + IRQ_TO_INT_N_SHIFT K) Irq4inthand) s2;
                s4 = emit (PicEnableIrq (COM1_IRQ K)) s3;
                s5 = s4\<lparr>ttytab := (ttytab s4)(tty := 1)\<rparr>
            in outpt (baseport + UART_IER K) (UART_IER_RDI K) s5)
         else if baseport = COM2_BASE K then
           (let s3 = emit (SetIntrGate (COM2_IRQ K + IRQ_TO_INT_N_SHIFT K) Irq3inthand) s2;
                s4 = emit (PicEnableIrq (COM2_IRQ K)) s3;
                s5 = s4\<lparr>ttytab := (ttytab s4)(tty := 1)\<rparr>
            in outpt (baseport + UART_IER K) (UART_IER_RDI K) s5)
         else emit (Kprintf bad_entry_msg dev) s2)"

subsection \<open>ttycontrol\<close>

definition ttycontrol :: "config \<Rightarrow> int \<Rightarrow> int \<Rightarrow> int \<Rightarrow> tty_state \<Rightarrow> int \<times> tty_state" where
  "ttycontrol K dev fncode val s =
     (let this_tty = dvdata K dev
      in if fncode = ECHOCONTROL K then (0, s\<lparr>ttytab := (ttytab s)(this_tty := val)\<rparr>)
         else (- 1, s))"

subsection \<open>The interrupt handler\<close>

text \<open>
  \<open>irqinthandc\<close> reads two device registers: \<open>hw_iir\<close> and \<open>hw_rx\<close> are what the
  interrupt-identification and the receive register of the line hold when the handler
  runs. The \<open>switch\<close> has no \<open>break\<close> at the end of \<open>case UART_IIR_RDI\<close>, so that case
  continues into the statements of \<open>case UART_IIR_THRI\<close>.
\<close>

definition rdi_case :: "config \<Rightarrow> int \<Rightarrow> nat \<Rightarrow> byte \<Rightarrow> tty_state \<Rightarrow> tty_state" where
  "rdi_case K baseport tty hw_rx s0 =
     (let s1 = emit (Inpt (baseport + UART_RX K) (uint hw_rx)) s0;
          ch = hw_rx;
          s2 = snd (do_enqueue QIn ch s1)
      in if ttytab s2 tty \<noteq> 0 then snd (do_enqueue QEcho ch s2) else s2)"

definition thri_case :: "config \<Rightarrow> int \<Rightarrow> tty_state \<Rightarrow> tty_state" where
  "thri_case K baseport s0 =
     (let s1 = (if queuecount (echoQueue s0) \<noteq> 0 then
                  (let (r, t) = do_dequeue QEcho s0
                   in outpt (baseport + UART_TX K) (dequeued_int K r) t)
                else s0)
      in if queuecount (outQueue s1) \<noteq> 0 then
           (let (r, t) = do_dequeue QOut s1
            in outpt (baseport + UART_TX K) (dequeued_int K r) t)
         else s1)"

definition irqinthandc :: "config \<Rightarrow> int \<Rightarrow> int \<Rightarrow> byte \<Rightarrow> tty_state \<Rightarrow> tty_state" where
  "irqinthandc K dev hw_iir hw_rx s0 =
     (let tty = dvdata K dev;
          baseport = dvbaseport K dev;
          s1 = emit (Inpt (baseport + UART_IIR K) hw_iir) s0;
          iir = hw_iir;
          s2 = emit PicEndInt s1;
          s3 = debug_log [0x2A] s2;
          sel = iir AND UART_IIR_ID K;
          s4 = (if sel = UART_IIR_RDI K then thri_case K baseport (rdi_case K baseport tty hw_rx s3)
                else if sel = UART_IIR_THRI K then thri_case K baseport s3
                else debug_log [0x23] s3)
      in outpt (baseport + UART_IER K) (UART_IER_RDI K) s4)"

definition irq4inthandc :: "config \<Rightarrow> int \<Rightarrow> byte \<Rightarrow> tty_state \<Rightarrow> tty_state" where
  "irq4inthandc K hw_iir hw_rx s = irqinthandc K (TTY0 K) hw_iir hw_rx s"

definition irq3inthandc :: "config \<Rightarrow> int \<Rightarrow> byte \<Rightarrow> tty_state \<Rightarrow> tty_state" where
  "irq3inthandc K hw_iir hw_rx s = irqinthandc K (TTY1 K) hw_iir hw_rx s"

subsection \<open>Interrupt delivery\<close>

text \<open>
  An interrupt request names its line and carries what the two device registers hold.
  The CPU takes a request only while its interrupt flag is set; the handler then runs to
  its end with the flag clear (the CPU clears it on entry to the vector), and the return
  from the interrupt restores the flag and the context. A window is the list of requests
  that the hardware raises at one point of a system call.
\<close>

datatype irq = IRQ4 int byte | IRQ3 int byte

definition run_handler :: "config \<Rightarrow> irq \<Rightarrow> tty_state \<Rightarrow> tty_state" where
  "run_handler K r s =
     (let s1 = s\<lparr>eflags_IF := False, running := Isr\<rparr>;
          s2 = (case r of
                  IRQ4 hw_iir hw_rx \<Rightarrow> irq4inthandc K hw_iir hw_rx s1
                | IRQ3 hw_iir hw_rx \<Rightarrow> irq3inthandc K hw_iir hw_rx s1)
      in s2\<lparr>eflags_IF := eflags_IF s, running := running s\<rparr>)"

definition deliver :: "config \<Rightarrow> irq list \<Rightarrow> tty_state \<Rightarrow> tty_state" where
  "deliver K w s = (if eflags_IF s then fold (run_handler K) w s else s)"

subsection \<open>ttyread\<close>

text \<open>
  The caller's buffer is the memory from \<open>buf\<close> on, a function from offsets to bytes.
  The loop of \<open>ttyread\<close> has no bound, so its model runs against a schedule: one window
  for each iteration, delivered after \<open>set_eflags\<close> has restored the caller's flag and
  before the next \<open>cli\<close>. \<open>ttyread_body\<close> is the body of the \<open>while\<close> loop. A
  schedule that ends while \<open>i < nchar\<close> gives \<open>None\<close>: the call has not returned.
  \<open>sprintf(log, ">%c", buf[i])\<close> is the two bytes \<open>0x3E\<close> and \<open>buf[i]\<close>.
\<close>

definition ttyread_body ::
  "int \<Rightarrow> (nat \<Rightarrow> byte) \<Rightarrow> tty_state \<Rightarrow> int \<times> (nat \<Rightarrow> byte) \<times> tty_state" where
  "ttyread_body i buf s =
     (let saved_eflags = get_eflags s;
          s1 = cli s;
          (r, s2) = do_dequeue QIn s1;
          (i', buf', s3) =
            (case r of
               Some ch \<Rightarrow> (i + 1, buf(nat i := ch), debug_log [0x3E, ch] s2)
             | None \<Rightarrow> (i, buf, s2))
      in (i', buf', set_eflags saved_eflags s3))"

fun ttyread_loop ::
  "config \<Rightarrow> int \<Rightarrow> irq list list \<Rightarrow> int \<Rightarrow> (nat \<Rightarrow> byte) \<Rightarrow> tty_state
     \<Rightarrow> ((nat \<Rightarrow> byte) \<times> tty_state) option" where
  "ttyread_loop K nchar [] i buf s = (if i < nchar then None else Some (buf, s))"
| "ttyread_loop K nchar (w # ws) i buf s =
     (if i < nchar then
        (let (i', buf', s') = ttyread_body i buf s
         in ttyread_loop K nchar ws i' buf' (deliver K w s'))
      else Some (buf, s))"

definition ttyread ::
  "config \<Rightarrow> int \<Rightarrow> (nat \<Rightarrow> byte) \<Rightarrow> int \<Rightarrow> irq list list \<Rightarrow> tty_state
     \<Rightarrow> (int \<times> (nat \<Rightarrow> byte) \<times> tty_state) option" where
  "ttyread K dev buf nchar sched s =
     (case ttyread_loop K nchar sched 0 buf s of
        None \<Rightarrow> None
      | Some (buf', s') \<Rightarrow> Some (nchar, buf', s'))"

subsection \<open>ttywrite\<close>

text \<open>
  \<open>ttywrite\<close> calls \<open>cli\<close> once, before its loop, and \<open>sti\<close> at the end of every
  iteration, so from the second iteration on the body runs with the interrupt flag set.
  Each iteration therefore has four windows: after the \<open>enqueue\<close>, after the \<open>outpt\<close>,
  after the \<open>debug_log\<close> and after the \<open>sti\<close>; \<open>deliver\<close> drops a window that comes
  while the flag is clear. The \<open>enqueue\<close> itself is one step: the queue module is not
  part of the sources, so a handler that runs in the middle of an \<open>enqueue\<close> is outside
  this model.
\<close>

record windows =
  after_enqueue :: "irq list"
  after_outpt :: "irq list"
  after_log :: "irq list"
  after_sti :: "irq list"

definition ttywrite_body ::
  "config \<Rightarrow> int \<Rightarrow> (nat \<Rightarrow> byte) \<Rightarrow> windows \<Rightarrow> int \<Rightarrow> tty_state \<Rightarrow> int \<times> tty_state" where
  "ttywrite_body K baseport buf w i s =
     (let (ok, s1) = do_enqueue QOut (buf (nat i)) s;
          s2 = deliver K (after_enqueue w) s1;
          (i', s5) =
            (if ok then
               (let s3 = deliver K (after_outpt w)
                           (outpt (baseport + UART_IER K) (UART_IER_THRI K) s2);
                    s4 = deliver K (after_log w) (debug_log [0x3C, buf (nat i)] s3)
                in (i + 1, s4))
             else (i, s2))
      in (i', sti s5))"

fun ttywrite_loop ::
  "config \<Rightarrow> int \<Rightarrow> (nat \<Rightarrow> byte) \<Rightarrow> int \<Rightarrow> windows list \<Rightarrow> int \<Rightarrow> tty_state
     \<Rightarrow> tty_state option" where
  "ttywrite_loop K baseport buf nchar [] i s = (if i < nchar then None else Some s)"
| "ttywrite_loop K baseport buf nchar (w # ws) i s =
     (if i < nchar then
        (let (i', s') = ttywrite_body K baseport buf w i s
         in ttywrite_loop K baseport buf nchar ws i' (deliver K (after_sti w) s'))
      else Some s)"

definition ttywrite ::
  "config \<Rightarrow> int \<Rightarrow> (nat \<Rightarrow> byte) \<Rightarrow> int \<Rightarrow> windows list \<Rightarrow> tty_state
     \<Rightarrow> (int \<times> tty_state) option" where
  "ttywrite K dev buf nchar sched s =
     (let baseport = dvbaseport K dev;
          s1 = cli s
      in case ttywrite_loop K baseport buf nchar sched 0 s1 of
           None \<Rightarrow> None
         | Some s' \<Rightarrow> Some (nchar, s'))"

subsection \<open>A concrete machine\<close>

text \<open>
  The parameters of a PC with two 16550 ports, on which the driver is evaluated for the
  concrete runs below: device 0 is the first port and device 1 the second, and the
  \<open>dvdata\<close> of device \<open>n\<close> is \<open>ttytab[n]\<close>.
\<close>

definition pc :: config where
  "pc = \<lparr>COM1_BASE = 0x3f8, COM2_BASE = 0x2f8, COM1_IRQ = 4, COM2_IRQ = 3,
          IRQ_TO_INT_N_SHIFT = 0x20, UART_RX = 0, UART_TX = 0, UART_IER = 1, UART_IIR = 2,
          UART_IER_RDI = 1, UART_IER_THRI = 2, UART_IIR_ID = 6, UART_IIR_RDI = 4,
          UART_IIR_THRI = 2, ECHOCONTROL = 1, TTY0 = 0, TTY1 = 1, EMPTYQUE = - 1,
          dvbaseport = (\<lambda>dev. if dev = 0 then 0x3f8 else if dev = 1 then 0x2f8 else 0),
          dvdata = nat\<rparr>"

definition booted :: tty_state where
  "booted = \<lparr>inQueue = init_queue MAXBUF, outQueue = init_queue MAXBUF,
              echoQueue = init_queue MAXBUF, ttytab = (\<lambda>_. 1), debug_area = [],
              eflags_IF = True, running = Task, events = []\<rparr>"

subsection \<open>Reading the list of calls\<close>

text \<open>
  \<open>new_events s s'\<close> are the calls made between the states \<open>s\<close> and \<open>s'\<close>. From a
  list of calls: \<open>dequeued q\<close> are the bytes that successful \<open>dequeue\<close> calls took from
  the queue \<open>q\<close>, \<open>accepted q\<close> the bytes that successful \<open>enqueue\<close> calls put into
  it, \<open>attempts q\<close> all the \<open>enqueue\<close> calls on it with their outcome, and
  \<open>task_events\<close> the calls made by the system call itself, not by a handler.
\<close>

definition new_events :: "tty_state \<Rightarrow> tty_state \<Rightarrow> (ctx \<times> bool \<times> event) list" where
  "new_events s s' = drop (length (events s)) (events s')"

fun deq_of :: "qid \<Rightarrow> event \<Rightarrow> byte list" where
  "deq_of q (Dequeue q' (Some b)) = (if q' = q then [b] else [])"
| "deq_of q _ = []"

fun enq_of :: "qid \<Rightarrow> event \<Rightarrow> (byte \<times> bool) list" where
  "enq_of q (Enqueue q' b ok) = (if q' = q then [(b, ok)] else [])"
| "enq_of q _ = []"

definition dequeued :: "qid \<Rightarrow> (ctx \<times> bool \<times> event) list \<Rightarrow> byte list" where
  "dequeued q tr = concat (map (\<lambda>x. deq_of q (snd (snd x))) tr)"

definition attempts :: "qid \<Rightarrow> (ctx \<times> bool \<times> event) list \<Rightarrow> (byte \<times> bool) list" where
  "attempts q tr = concat (map (\<lambda>x. enq_of q (snd (snd x))) tr)"

definition accepted :: "qid \<Rightarrow> (ctx \<times> bool \<times> event) list \<Rightarrow> byte list" where
  "accepted q tr = map fst (filter snd (attempts q tr))"

definition task_events :: "(ctx \<times> bool \<times> event) list \<Rightarrow> event list" where
  "task_events tr = map (\<lambda>x. snd (snd x)) (filter (\<lambda>x. fst x = Task) tr)"

text \<open>
  What section 4.4 of the specification asks of \<open>write\<close>, as a function of the outcomes
  of its attempts: the attempt made after \<open>i\<close> bytes were accepted offers \<open>buf[i]\<close>, so
  a refused byte is offered again and an accepted one is followed by the next; an accepted
  byte is followed by the write of \<open>UART_IER_THRI\<close> to the interrupt-enable register.
\<close>

fun write_attempts :: "(nat \<Rightarrow> byte) \<Rightarrow> nat \<Rightarrow> bool list \<Rightarrow> (byte \<times> bool) list" where
  "write_attempts buf i [] = []"
| "write_attempts buf i (ok # oks) =
     (buf i, ok) # write_attempts buf (if ok then Suc i else i) oks"

definition write_calls :: "config \<Rightarrow> int \<Rightarrow> byte \<times> bool \<Rightarrow> event list" where
  "write_calls K baseport a =
     (if snd a then [Enqueue QOut (fst a) True,
                     Outpt (baseport + UART_IER K) (UART_IER_THRI K), Sti]
      else [Enqueue QOut (fst a) False, Sti])"

text \<open>
  What the handlers that run between two states \<open>s\<close> and \<open>s'\<close> of a system call may
  have done: they made calls of their own, none of them a \<open>dequeue\<close> on the receive
  queue or an \<open>enqueue\<close> on the transmit queue; the receive queue has grown at its tail
  by the bytes accepted, the transmit queue has lost at its head the bytes dequeued from
  it, and the echo flags, the interrupt flag and the context are as before.
\<close>

definition isr_effect :: "tty_state \<Rightarrow> tty_state \<Rightarrow> bool" where
  "isr_effect s s' =
     (let ev = new_events s s'
      in events s' = events s @ ev \<and> task_events ev = [] \<and> dequeued QIn ev = []
         \<and> attempts QOut ev = []
         \<and> items (inQueue s') = items (inQueue s) @ accepted QIn ev
         \<and> ttytab s' = ttytab s \<and> eflags_IF s' = eflags_IF s \<and> running s' = running s
         \<and> items (outQueue s) = dequeued QOut ev @ items (outQueue s')
         \<and> length (items (outQueue s')) \<le> length (items (outQueue s))
         \<and> qmax (outQueue s') = qmax (outQueue s))"

text \<open>
  A stretch of a system call from \<open>s\<close> to \<open>s'\<close>, handlers included: \<open>te\<close> are the
  calls of the system call itself and \<open>at\<close> its attempts on the transmit queue; the
  transmit queue has grown by at most \<open>n\<close> bytes, and what it held at \<open>s\<close> followed by
  the bytes accepted since is what has been dequeued from it since followed by what it
  holds at \<open>s'\<close>.
\<close>

definition run_seg ::
  "tty_state \<Rightarrow> tty_state \<Rightarrow> event list \<Rightarrow> (byte \<times> bool) list \<Rightarrow> nat \<Rightarrow> bool" where
  "run_seg s s' te at n =
     (events s' = events s @ new_events s s' \<and> task_events (new_events s s') = te
      \<and> attempts QOut (new_events s s') = at
      \<and> ttytab s' = ttytab s \<and> running s' = running s
      \<and> items (outQueue s) @ accepted QOut (new_events s s')
          = dequeued QOut (new_events s s') @ items (outQueue s')
      \<and> length (items (outQueue s')) \<le> length (items (outQueue s)) + n
      \<and> qmax (outQueue s') = qmax (outQueue s))"

text \<open>The state in which both the echo and the transmit queue hold bytes.\<close>

definition both_pending :: tty_state where
  "both_pending = booted\<lparr>echoQueue := \<lparr>qmax = MAXBUF, items = [0x65]\<rparr>,
                          outQueue := \<lparr>qmax = MAXBUF, items = [0x74, 0x75]\<rparr>\<rparr>"

text \<open>A buffer that holds \<open>ab\<close>, and a window without interrupt requests.\<close>

definition ab_buf :: "nat \<Rightarrow> byte" where
  "ab_buf k = (if k = 0 then 0x61 else if k = 1 then 0x62 else 0)"

definition zero_buf :: "nat \<Rightarrow> byte" where
  "zero_buf k = 0"

text \<open>
  The arrivals of scenario B of the specification: three receive interrupts on the first
  port that bring \<open>x\<close>, \<open>y\<close> and \<open>z\<close>, one after each of the first three iterations.
\<close>

definition xyz_arrivals :: "irq list list" where
  "xyz_arrivals = [[IRQ4 4 0x78], [IRQ4 4 0x79], [IRQ4 4 0x7a], []]"

text \<open>The state in which the receive queue holds one byte.\<close>

definition one_received :: tty_state where
  "one_received = booted\<lparr>inQueue := \<lparr>qmax = MAXBUF, items = [0x61]\<rparr>\<rparr>"

definition quiet :: windows where
  "quiet = \<lparr>after_enqueue = [], after_outpt = [], after_log = [], after_sti = []\<rparr>"

text \<open>
  The state in which the transmit queue is full, and the windows of an iteration after
  whose \<open>sti\<close> a transmit interrupt of the first port arrives.
\<close>

definition full_out :: tty_state where
  "full_out = booted\<lparr>outQueue := \<lparr>qmax = MAXBUF, items = [1, 2, 3, 4, 5, 6]\<rparr>\<rparr>"

definition drain_once :: windows where
  "drain_once = \<lparr>after_enqueue = [], after_outpt = [], after_log = [], after_sti = [IRQ4 2 0]\<rparr>"

section \<open>Properties\<close>

lemmas prim_defs = emit_def outpt_def cli_def sti_def get_eflags_def set_eflags_def
  debug_log_def do_enqueue_def do_dequeue_def get_queue_def set_queue_def enqueue_def
  dequeue_def queuecount_def init_queue_def dequeued_int_def

lemmas isr_defs = run_handler_def irq4inthandc_def irq3inthandc_def irqinthandc_def
  rdi_case_def thri_case_def

subsection \<open>Handlers as seen from a system call\<close>

lemma dequeued_append [simp]: "dequeued q (xs @ ys) = dequeued q xs @ dequeued q ys"
  by (simp add: dequeued_def)

lemma attempts_append [simp]: "attempts q (xs @ ys) = attempts q xs @ attempts q ys"
  by (simp add: attempts_def)

lemma accepted_append [simp]: "accepted q (xs @ ys) = accepted q xs @ accepted q ys"
  by (simp add: accepted_def)

lemma task_events_append [simp]: "task_events (xs @ ys) = task_events xs @ task_events ys"
  by (simp add: task_events_def)

lemma obs_Nil [simp]: "dequeued q [] = []" "attempts q [] = []" "accepted q [] = []" "task_events [] = []"
  by (simp_all add: dequeued_def attempts_def accepted_def task_events_def)

lemma obs_Cons [simp]:
  "dequeued q (x # xs) = deq_of q (snd (snd x)) @ dequeued q xs"
  "attempts q (x # xs) = enq_of q (snd (snd x)) @ attempts q xs"
  "task_events (x # xs) = (if fst x = Task then snd (snd x) # task_events xs else task_events xs)"
  by (simp_all add: dequeued_def attempts_def task_events_def)

lemma accepted_Cons [simp]:
  "accepted q (x # xs) = map fst (filter snd (enq_of q (snd (snd x)))) @ accepted q xs"
  by (simp add: accepted_def)

lemma new_events_app: "events s' = events s @ ev \<Longrightarrow> new_events s s' = ev"
  by (simp add: new_events_def)

lemma isr_effect_refl: "isr_effect s s"
  by (simp add: isr_effect_def new_events_def)

lemma isr_effect_trans:
  assumes "isr_effect s t" and "isr_effect t u"
  shows "isr_effect s u"
proof -
  from assms have e: "events u = events s @ (new_events s t @ new_events t u)"
    by (simp add: isr_effect_def Let_def)
  have n: "new_events s u = new_events s t @ new_events t u"
    using e by (rule new_events_app)
  show ?thesis
    using assms e unfolding isr_effect_def Let_def n by simp
qed



lemmas isr_effect_unfold = isr_effect_def Let_def new_events_def

lemma emit_isr:
  "running s = Isr \<Longrightarrow> deq_of QIn e = [] \<Longrightarrow> enq_of QOut e = [] \<Longrightarrow> enq_of QIn e = []
    \<Longrightarrow> deq_of QOut e = [] \<Longrightarrow> isr_effect s (emit e s)"
  by (simp add: isr_effect_unfold emit_def)

lemma debug_log_isr: "isr_effect s (debug_log m s)"
  by (simp add: isr_effect_unfold debug_log_def)

lemma enqueue_in_isr: "running s = Isr \<Longrightarrow> isr_effect s (snd (do_enqueue QIn b s))"
  by (simp add: isr_effect_unfold prim_defs)

lemma enqueue_echo_isr: "running s = Isr \<Longrightarrow> isr_effect s (snd (do_enqueue QEcho b s))"
  by (simp add: isr_effect_unfold prim_defs)

lemma dequeue_echo_isr: "running s = Isr \<Longrightarrow> isr_effect s (snd (do_dequeue QEcho s))"
  by (simp add: isr_effect_unfold prim_defs split: list.splits)

lemma dequeue_out_isr: "running s = Isr \<Longrightarrow> isr_effect s (snd (do_dequeue QOut s))"
  by (simp add: isr_effect_unfold prim_defs split: list.splits)

lemma isr_effect_running: "isr_effect s t \<Longrightarrow> running t = running s"
  by (simp add: isr_effect_def Let_def)

lemma rdi_case_isr:
  assumes r: "running s = Isr"
  shows "isr_effect s (rdi_case K baseport tty hw_rx s)"
proof -
  let ?s1 = "emit (Inpt (baseport + UART_RX K) (uint hw_rx)) s"
  let ?s2 = "snd (do_enqueue QIn hw_rx ?s1)"
  have a: "isr_effect s ?s1" using r by (simp add: emit_isr)
  have "running ?s1 = Isr" using a r by (simp add: isr_effect_running)
  then have b: "isr_effect ?s1 ?s2" by (rule enqueue_in_isr)
  have ab: "isr_effect s ?s2" using a b by (rule isr_effect_trans)
  then have "running ?s2 = Isr" using r by (simp add: isr_effect_running)
  then have c: "isr_effect ?s2 (snd (do_enqueue QEcho hw_rx ?s2))" by (rule enqueue_echo_isr)
  have abc: "isr_effect s (snd (do_enqueue QEcho hw_rx ?s2))"
    using ab c by (rule isr_effect_trans)
  show ?thesis
    unfolding rdi_case_def Let_def using ab abc by simp
qed

lemma drain_isr:
  assumes r: "running s = Isr" and q: "q = QEcho \<or> q = QOut"
  shows "isr_effect s (case do_dequeue q s of (r, t) \<Rightarrow> outpt port (dequeued_int K r) t)"
proof -
  have a: "isr_effect s (snd (do_dequeue q s))"
    using r q dequeue_echo_isr dequeue_out_isr by blast
  from a have "running (snd (do_dequeue q s)) = running s" by (rule isr_effect_running)
  then have "isr_effect (snd (do_dequeue q s)) (outpt port v (snd (do_dequeue q s)))" for v
    unfolding outpt_def using r by (simp add: emit_isr)
  with a have "isr_effect s (outpt port v (snd (do_dequeue q s)))" for v
    by (rule isr_effect_trans)
  then show ?thesis by (simp add: case_prod_beta)
qed

lemma thri_case_isr:
  assumes r: "running s = Isr"
  shows "isr_effect s (thri_case K baseport s)"
proof -
  define s1 where "s1 = (if queuecount (echoQueue s) \<noteq> 0 then
              (let (r, t) = do_dequeue QEcho s in outpt (baseport + UART_TX K) (dequeued_int K r) t)
             else s)"
  have a: "isr_effect s s1" unfolding s1_def Let_def using r by (simp add: drain_isr isr_effect_refl)
  from a have "running s1 = running s" by (rule isr_effect_running)
  with r have r1: "running s1 = Isr" by simp
  have b: "isr_effect s1 (case do_dequeue QOut s1 of (r, t) \<Rightarrow> outpt (baseport + UART_TX K) (dequeued_int K r) t)"
    using r1 by (simp add: drain_isr)
  have ab: "isr_effect s (case do_dequeue QOut s1 of (r, t) \<Rightarrow> outpt (baseport + UART_TX K) (dequeued_int K r) t)"
    using a b by (rule isr_effect_trans)
  have "thri_case K baseport s = (if queuecount (outQueue s1) \<noteq> 0 then
      (case do_dequeue QOut s1 of (r, t) \<Rightarrow> outpt (baseport + UART_TX K) (dequeued_int K r) t) else s1)"
    unfolding thri_case_def s1_def Let_def by simp
  then show ?thesis using a ab by simp
qed

lemma irqinthandc_isr:
  assumes r: "running s = Isr"
  shows "isr_effect s (irqinthandc K dev hw_iir hw_rx s)"
proof -
  define bp where "bp = dvbaseport K dev"
  define s3 where "s3 = debug_log [0x2A] (emit PicEndInt (emit (Inpt (bp + UART_IIR K) hw_iir) s))"
  define s3r where "s3r = rdi_case K bp (dvdata K dev) hw_rx s3"
  define s4 where "s4 = (if hw_iir AND UART_IIR_ID K = UART_IIR_RDI K
             then thri_case K bp s3r
             else if hw_iir AND UART_IIR_ID K = UART_IIR_THRI K then thri_case K bp s3
             else debug_log [0x23] s3)"
  have a: "isr_effect s s3"
    unfolding s3_def using r by (simp add: isr_effect_unfold emit_def debug_log_def)
  from a have "running s3 = running s" by (rule isr_effect_running)
  with r have r3: "running s3 = Isr" by simp
  have b1: "isr_effect s3 s3r"
    unfolding s3r_def using r3 by (rule rdi_case_isr)
  from b1 have "running s3r = running s3" by (rule isr_effect_running)
  with r3 have "running s3r = Isr" by simp
  then have "isr_effect s3r (thri_case K bp s3r)"
    by (rule thri_case_isr)
  with b1 have b2: "isr_effect s3 (thri_case K bp s3r)"
    by (rule isr_effect_trans)
  have b3: "isr_effect s3 (thri_case K bp s3)" using r3 by (rule thri_case_isr)
  have b4: "isr_effect s3 (debug_log [0x23] s3)" by (rule debug_log_isr)
  have b: "isr_effect s3 s4" unfolding s4_def using b2 b3 b4 by simp
  have c: "isr_effect s s4" using a b by (rule isr_effect_trans)
  from c have "running s4 = running s" by (rule isr_effect_running)
  with r have "running s4 = Isr" by simp
  then have "isr_effect s4 (outpt (bp + UART_IER K) (UART_IER_RDI K) s4)"
    unfolding outpt_def by (simp add: emit_isr)
  with c have "isr_effect s (outpt (bp + UART_IER K) (UART_IER_RDI K) s4)"
    by (rule isr_effect_trans)
  then show ?thesis unfolding irqinthandc_def Let_def s4_def s3r_def s3_def bp_def .
qed

lemma run_handler_isr: "isr_effect s (run_handler K r s)"
proof -
  let ?s1 = "s\<lparr>eflags_IF := False, running := Isr\<rparr>"
  have "isr_effect ?s1 (irqinthandc K dev hw_iir hw_rx ?s1)" for dev hw_iir hw_rx
    by (rule irqinthandc_isr) simp
  then have "isr_effect s ((irqinthandc K dev hw_iir hw_rx ?s1)\<lparr>eflags_IF := eflags_IF s, running := running s\<rparr>)"
    for dev hw_iir hw_rx
    by (simp add: isr_effect_unfold task_events_def)
  then show ?thesis
    by (cases r) (simp_all add: run_handler_def irq4inthandc_def irq3inthandc_def Let_def)
qed

lemma fold_run_handler_isr: "isr_effect s (fold (run_handler K) w s)"
proof (induction w arbitrary: s)
  case Nil
  show ?case by (simp add: isr_effect_refl)
next
  case (Cons r w)
  have "isr_effect s (run_handler K r s)" by (rule run_handler_isr)
  moreover have "isr_effect (run_handler K r s) (fold (run_handler K) w (run_handler K r s))"
    by (rule Cons.IH)
  ultimately show ?case by (simp add: isr_effect_trans)
qed

lemma deliver_isr: "isr_effect s (deliver K w s)"
  by (simp add: deliver_def fold_run_handler_isr isr_effect_refl)

subsection \<open>The loop of ttyread\<close>

lemma new_events_chain:
  assumes "events t = events s @ new_events s t" and "events u = events t @ new_events t u"
  shows "events u = events s @ new_events s u"
    and "new_events s u = new_events s t @ new_events t u"
proof -
  have e: "events u = events s @ (new_events s t @ new_events t u)"
    using assms by simp
  then show "new_events s u = new_events s t @ new_events t u" by (rule new_events_app)
  with e show "events u = events s @ new_events s u" by simp
qed

lemma ttyread_body_effect:
  assumes "ttyread_body i buf s = (i1, buf1, s1)"
  shows "events s1 = events s @ new_events s s1"
    and "accepted QIn (new_events s s1) = []"
    and "items (inQueue s) = dequeued QIn (new_events s s1) @ items (inQueue s1)"
    and "(dequeued QIn (new_events s s1) = [] \<and> i1 = i \<and> buf1 = buf)
         \<or> (dequeued QIn (new_events s s1) = [buf1 (nat i)] \<and> i1 = i + 1
             \<and> buf1 = buf(nat i := buf1 (nat i)))"
    and "ttytab s1 = ttytab s" and "eflags_IF s1 = eflags_IF s" and "running s1 = running s"
  using assms
  by (auto simp add: ttyread_body_def prim_defs Let_def new_events_def split: list.splits)

lemma ttyread_loop_quiet:
  "0 \<le> i \<Longrightarrow> i < nchar \<Longrightarrow> items (inQueue s) = [] \<Longrightarrow> \<forall>w\<in>set sched. w = []
    \<Longrightarrow> ttyread_loop K nchar sched i buf s = None"
proof (induction sched arbitrary: s)
  case Nil
  then show ?case by simp
next
  case (Cons w ws)
  obtain i1 buf1 s1 where body: "ttyread_body i buf s = (i1, buf1, s1)"
    by (cases "ttyread_body i buf s") auto
  note b = ttyread_body_effect [OF body]
  from b(3) Cons.prems(3) have e: "items (inQueue s1) = []" "dequeued QIn (new_events s s1) = []"
    by simp_all
  with b(4) have s: "i1 = i" "buf1 = buf" by auto
  from Cons.prems(4) have w: "w = []" and ws: "\<forall>w\<in>set ws. w = []" by simp_all
  have "ttyread_loop K nchar ws i buf s1 = None"
    using Cons.prems(1,2) e(1) ws by (rule Cons.IH)
  with body s w Cons.prems(2) show ?case by (simp add: deliver_def)
qed

lemma ttyread_loop_returns:
  "0 \<le> i \<Longrightarrow> nat (nchar - i) \<le> length (items (inQueue s)) \<Longrightarrow> nat (nchar - i) \<le> length sched
    \<Longrightarrow> ttyread_loop K nchar sched i buf s \<noteq> None"
proof (induction sched arbitrary: i buf s)
  case Nil
  then show ?case by simp
next
  case (Cons w ws)
  show ?case
  proof (cases "i < nchar")
    case False
    then show ?thesis by simp
  next
    case True
    obtain i1 buf1 s1 where body: "ttyread_body i buf s = (i1, buf1, s1)"
      by (cases "ttyread_body i buf s") auto
    note b = ttyread_body_effect [OF body]
    from True Cons.prems(2) have ne: "items (inQueue s) \<noteq> []" by auto
    have i1: "i1 = i + 1" and l1: "length (items (inQueue s)) = Suc (length (items (inQueue s1)))"
      using body ne by (auto simp add: ttyread_body_def prim_defs Let_def split: list.splits)
    have d: "isr_effect s1 (deliver K w s1)" by (rule deliver_isr)
    then have "length (items (inQueue s1)) \<le> length (items (inQueue (deliver K w s1)))"
      by (simp add: isr_effect_def Let_def)
    with l1 Cons.prems i1 True
    have "ttyread_loop K nchar ws i1 buf1 (deliver K w s1) \<noteq> None"
      by (intro Cons.IH) auto
    with body True show ?thesis by simp
  qed
qed

lemma ttyread_loop_inv:
  "ttyread_loop K nchar sched i buf s = Some (buf', s') \<Longrightarrow> 0 \<le> i \<Longrightarrow> i \<le> nchar \<Longrightarrow>
     events s' = events s @ new_events s s'
     \<and> dequeued QIn (new_events s s') = map buf' [nat i..<nat nchar]
     \<and> (\<forall>k. k < nat i \<or> nat nchar \<le> k \<longrightarrow> buf' k = buf k)
     \<and> items (inQueue s) @ accepted QIn (new_events s s')
         = dequeued QIn (new_events s s') @ items (inQueue s')
     \<and> ttytab s' = ttytab s \<and> eflags_IF s' = eflags_IF s \<and> running s' = running s"
proof (induction sched arbitrary: i buf s)
  case Nil
  then have "i = nchar" "buf' = buf" "s' = s" by (auto split: if_splits)
  then show ?case by (simp add: new_events_def)
next
  case (Cons w ws)
  show ?case
  proof (cases "i < nchar")
    case False
    with Cons.prems have "i = nchar" "buf' = buf" "s' = s" by auto
    then show ?thesis by (simp add: new_events_def)
  next
    case True
    obtain i1 buf1 s1 where body: "ttyread_body i buf s = (i1, buf1, s1)"
      by (cases "ttyread_body i buf s") auto
    define s2 where "s2 = deliver K w s1"
    from Cons.prems(1) True body have rest: "ttyread_loop K nchar ws i1 buf1 s2 = Some (buf', s')"
      by (simp add: s2_def)
    note b = ttyread_body_effect [OF body]
    have d: "isr_effect s1 s2" unfolding s2_def by (rule deliver_isr)
    from b(4) True Cons.prems have i1: "0 \<le> i1" "i1 \<le> nchar" by auto
    note ih = Cons.IH [OF rest i1]
    from d have e12: "events s2 = events s1 @ new_events s1 s2" by (simp add: isr_effect_def Let_def)
    from ih have e2': "events s' = events s2 @ new_events s2 s'" by simp
    note c1 = new_events_chain [OF b(1) e12]
    note c2 = new_events_chain [OF c1(1) e2']
    have ev: "new_events s s' = new_events s s1 @ new_events s1 s2 @ new_events s2 s'"
      using c1(2) c2(2) by simp
    from d have dq: "dequeued QIn (new_events s1 s2) = []"
      and inq: "items (inQueue s2) = items (inQueue s1) @ accepted QIn (new_events s1 s2)"
      and fr: "ttytab s2 = ttytab s1" "eflags_IF s2 = eflags_IF s1" "running s2 = running s1"
      by (simp_all add: isr_effect_def Let_def)
    from b(4) show ?thesis
    proof
      assume h: "dequeued QIn (new_events s s1) = [] \<and> i1 = i \<and> buf1 = buf"
      with ih c2(1) ev dq inq fr b show ?thesis by simp
    next
      assume h: "dequeued QIn (new_events s s1) = [buf1 (nat i)] \<and> i1 = i + 1
             \<and> buf1 = buf(nat i := buf1 (nat i))"
      with Cons.prems have n: "nat i1 = Suc (nat i)" by simp
      from ih n have keep: "buf' (nat i) = buf1 (nat i)" by simp
      from True Cons.prems have "nat i < nat nchar" by simp
      then have up: "[nat i..<nat nchar] = nat i # [Suc (nat i)..<nat nchar]"
        by (rule upt_conv_Cons)
      have m: "dequeued QIn (new_events s s') = map buf' [nat i..<nat nchar]"
        using ev dq h ih n keep up by simp
      have f: "\<forall>k. k < nat i \<or> nat nchar \<le> k \<longrightarrow> buf' k = buf k"
      proof (intro allI impI)
        fix k assume k: "k < nat i \<or> nat nchar \<le> k"
        with n \<open>nat i < nat nchar\<close> have "k < nat i1 \<or> nat nchar \<le> k" and "k \<noteq> nat i" by auto
        with ih have "buf' k = buf1 k" by blast
        also have "buf1 k = buf k" using h \<open>k \<noteq> nat i\<close> by (metis fun_upd_other)
        finally show "buf' k = buf k" .
      qed
      have q: "items (inQueue s) @ accepted QIn (new_events s s')
         = dequeued QIn (new_events s s') @ items (inQueue s')"
        using ev dq inq ih b(2) b(3) h by simp
      from c2(1) m f q ih fr b show ?thesis by simp
    qed
  qed
qed

subsection \<open>ttyread\<close>

text \<open>
  C4: for \<open>nchar \<ge> 0\<close>, whenever \<open>ttyread(dev, buf, nchar)\<close> returns, it returns
  \<open>nchar\<close>; the bytes it has dequeued from the receive queue during the call are exactly
  \<open>nchar\<close> bytes, stored in this order in \<open>buf[0..nchar)\<close>; the rest of the buffer is
  untouched; and they are the first \<open>nchar\<close> bytes of the arrivals in FIFO order, where
  the arrivals are the bytes in the receive queue at the call followed by the bytes the
  handlers put into it during the call (what is left of the arrivals is the receive queue
  at the return). The call does not return while the receive queue is empty and no
  interrupt arrives, however long the schedule; and it does return once the receive queue
  holds \<open>nchar\<close> bytes.
\<close>

theorem ttyread_delivers:
  assumes "0 \<le> nchar"
  shows "(\<forall>ret buf' s'. ttyread K dev buf nchar sched s = Some (ret, buf', s') \<longrightarrow>
            ret = nchar
            \<and> dequeued QIn (new_events s s') = map buf' [0..<nat nchar]
            \<and> (\<forall>k\<ge>nat nchar. buf' k = buf k)
            \<and> items (inQueue s) @ accepted QIn (new_events s s')
                = map buf' [0..<nat nchar] @ items (inQueue s'))
       \<and> (0 < nchar \<and> items (inQueue s) = [] \<and> (\<forall>w\<in>set sched. w = []) \<longrightarrow>
            ttyread K dev buf nchar sched s = None)
       \<and> (nat nchar \<le> length (items (inQueue s)) \<and> nat nchar \<le> length sched \<longrightarrow>
            ttyread K dev buf nchar sched s \<noteq> None)"
proof -
  have a: "ret = nchar
            \<and> dequeued QIn (new_events s s') = map buf' [0..<nat nchar]
            \<and> (\<forall>k\<ge>nat nchar. buf' k = buf k)
            \<and> items (inQueue s) @ accepted QIn (new_events s s')
                = map buf' [0..<nat nchar] @ items (inQueue s')"
    if "ttyread K dev buf nchar sched s = Some (ret, buf', s')" for ret buf' s'
  proof -
    from that have r: "ret = nchar"
      and l: "ttyread_loop K nchar sched 0 buf s = Some (buf', s')"
      by (auto simp add: ttyread_def split: option.splits)
    have z: "(0::int) \<le> 0" by simp
    from ttyread_loop_inv [OF l z assms] r show ?thesis by simp
  qed
  have b: "ttyread K dev buf nchar sched s = None"
    if "0 < nchar \<and> items (inQueue s) = [] \<and> (\<forall>w\<in>set sched. w = [])"
  proof -
    from that have "ttyread_loop K nchar sched 0 buf s = None"
      by (intro ttyread_loop_quiet) simp_all
    then show ?thesis by (simp add: ttyread_def)
  qed
  have c: "ttyread K dev buf nchar sched s \<noteq> None"
    if "nat nchar \<le> length (items (inQueue s)) \<and> nat nchar \<le> length sched"
  proof -
    from that have "ttyread_loop K nchar sched 0 buf s \<noteq> None"
      by (intro ttyread_loop_returns) simp_all
    then show ?thesis by (auto simp add: ttyread_def split: option.splits)
  qed
  from a b c show ?thesis by blast
qed

lemma xyz_run:
  "map_option (\<lambda>(ret, buf', s'). (ret, map buf' [0, 1, 2], items (inQueue s')))
     (ttyread pc 0 zero_buf 3 xyz_arrivals booted) = Some (3, [0x78, 0x79, 0x7a], [])"
  by code_simp

theorem ttyread_delivers_witness:
  "(\<exists>buf' s'. ttyread pc 0 zero_buf 3 xyz_arrivals booted = Some (3, buf', s')
      \<and> map buf' [0..<3] = [0x78, 0x79, 0x7a]
      \<and> dequeued QIn (new_events booted s') = [0x78, 0x79, 0x7a]
      \<and> accepted QIn (new_events booted s') = [0x78, 0x79, 0x7a])
   \<and> ttyread pc 0 zero_buf 3 [[], [], [], []] booted = None
   \<and> ttyread pc 0 zero_buf 1 [[]] one_received \<noteq> None"
proof -
  obtain ret buf' s' where run: "ttyread pc 0 zero_buf 3 xyz_arrivals booted = Some (ret, buf', s')"
    and b: "map buf' [0, 1, 2] = [0x78, 0x79, 0x7a]" and q: "items (inQueue s') = []"
    using xyz_run by (cases "ttyread pc 0 zero_buf 3 xyz_arrivals booted") auto
  have u: "[0..<nat 3] = [0, 1, 2]" by code_simp
  have u': "[0..<3] = [0::nat, 1, 2]" by code_simp
  have i: "items (inQueue booted) = []" by (simp add: booted_def init_queue_def)
  have h: "(0::int) \<le> 3" by simp
  note t = ttyread_delivers [OF h, of pc 0 zero_buf xyz_arrivals booted]
  note g = t [THEN conjunct1, rule_format, OF run]
  from g have r: "ret = 3" by (rule conjunct1)
  from g have d: "dequeued QIn (new_events booted s') = map buf' [0..<nat 3]"
    by (rule conjunct2 [THEN conjunct1])
  from g have f: "items (inQueue booted) @ accepted QIn (new_events booted s')
                = map buf' [0..<nat 3] @ items (inQueue s')"
    by (rule conjunct2 [THEN conjunct2, THEN conjunct2])
  from d u b have d': "dequeued QIn (new_events booted s') = [0x78, 0x79, 0x7a]" by simp
  from f u b i q have f': "accepted QIn (new_events booted s') = [0x78, 0x79, 0x7a]" by simp
  from b u' have b': "map buf' [0..<3] = [0x78, 0x79, 0x7a]" by simp
  from run r have run': "ttyread pc 0 zero_buf 3 xyz_arrivals booted = Some (3, buf', s')"
    by simp
  have s: "0 < (3::int) \<and> items (inQueue booted) = []
    \<and> (\<forall>w\<in>set [[], [], [], []]. w = ([]::irq list))" using i by simp
  note t2 = ttyread_delivers [OF h, of pc 0 zero_buf "[[], [], [], []]" booted]
  have n: "ttyread pc 0 zero_buf 3 [[], [], [], []] booted = None"
    using t2 [THEN conjunct2, THEN conjunct1, rule_format, OF s] .
  have h1: "(0::int) \<le> 1" by simp
  have s1: "nat 1 \<le> length (items (inQueue one_received)) \<and> nat 1 \<le> length [[]::irq list]"
    by (simp add: one_received_def)
  note t3 = ttyread_delivers [OF h1, of pc 0 zero_buf "[[]]" one_received]
  have m: "ttyread pc 0 zero_buf 1 [[]] one_received \<noteq> None"
    using t3 [THEN conjunct2, THEN conjunct2, rule_format, OF s1] .
  from run' b' d' f' n m show ?thesis by (intro conjI exI)
qed

subsection \<open>ttycontrol\<close>

text \<open>
  C7: \<open>ttycontrol(dev, fncode, val)\<close> with the echo-control code stores \<open>val\<close> in the
  echo flag of the line, changes nothing else and returns 0; with any other code it
  returns -1 and leaves the whole driver state as it was.
\<close>

theorem ttycontrol_result:
  "(fncode = ECHOCONTROL K \<longrightarrow>
      ttycontrol K dev fncode val s = (0, s\<lparr>ttytab := (ttytab s)(dvdata K dev := val)\<rparr>))
   \<and> (fncode \<noteq> ECHOCONTROL K \<longrightarrow> ttycontrol K dev fncode val s = (- 1, s))"
  by (simp add: ttycontrol_def)

theorem ttycontrol_result_witness:
  "ttytab (snd (ttycontrol pc 0 1 0 booted)) 0 = 0 \<and> fst (ttycontrol pc 0 1 0 booted) = 0
   \<and> ttycontrol pc 0 7 0 booted = (- 1, booted)"
  using ttycontrol_result [of 1 pc 0 0 booted] ttycontrol_result [of 7 pc 0 0 booted]
  by (simp add: pc_def)

subsection \<open>ttyinit\<close>

text \<open>
  C8: when the base address of the device is neither \<open>COM1_BASE\<close> nor \<open>COM2_BASE\<close>,
  the only call \<open>ttyinit\<close> makes is the \<open>kprintf\<close> of the bad-entry message (no
  interrupt vector is installed, no line of the interrupt controller is enabled, no
  register is written) and no echo flag changes; when the base address is one of the two, the echo
  flag of the line is 1 afterwards and the last call writes \<open>UART_IER_RDI\<close> to the
  interrupt-enable register of the port.
\<close>

theorem ttyinit_base_address:
  "(dvbaseport K dev \<noteq> COM1_BASE K \<and> dvbaseport K dev \<noteq> COM2_BASE K \<longrightarrow>
      events (ttyinit K dev s)
        = events s @ [(running s, eflags_IF s, Kprintf bad_entry_msg dev)]
      \<and> ttytab (ttyinit K dev s) = ttytab s)
   \<and> (dvbaseport K dev = COM1_BASE K \<or> dvbaseport K dev = COM2_BASE K \<longrightarrow>
      ttytab (ttyinit K dev s) (dvdata K dev) = 1
      \<and> last (events (ttyinit K dev s))
          = (running s, eflags_IF s,
             Outpt (dvbaseport K dev + UART_IER K) (UART_IER_RDI K)))"
  by (simp add: ttyinit_def Let_def emit_def outpt_def)

theorem ttyinit_base_address_witness:
  "events (ttyinit pc 5 booted) = [(Task, True, Kprintf bad_entry_msg 5)]
   \<and> ttytab (ttyinit pc 5 booted) = ttytab booted
   \<and> ttytab (ttyinit pc 1 booted) 1 = 1
   \<and> last (events (ttyinit pc 1 booted)) = (Task, True, Outpt 0x2f9 1)"
  using ttyinit_base_address [of pc 5 booted] ttyinit_base_address [of pc 1 booted]
  by (simp add: pc_def booted_def)

text \<open>
  C9: for a device with a recognised base address, a second \<open>ttyinit\<close> leaves the
  driver state (the queues, the echo flags, the debug log, the interrupt flag) as the
  first one left it and makes the same calls again; after \<open>ttyinit\<close> the three queues
  are empty with capacity 6 and the echo flag of the line is 1.
\<close>

theorem ttyinit_idempotent:
  assumes "dvbaseport K dev = COM1_BASE K \<or> dvbaseport K dev = COM2_BASE K"
  shows "(ttyinit K dev (ttyinit K dev s))\<lparr>events := []\<rparr>
           = (ttyinit K dev s)\<lparr>events := []\<rparr>
    \<and> new_events (ttyinit K dev s) (ttyinit K dev (ttyinit K dev s))
           = new_events s (ttyinit K dev s)
    \<and> inQueue (ttyinit K dev s) = \<lparr>qmax = 6, items = []\<rparr>
    \<and> outQueue (ttyinit K dev s) = \<lparr>qmax = 6, items = []\<rparr>
    \<and> echoQueue (ttyinit K dev s) = \<lparr>qmax = 6, items = []\<rparr>
    \<and> ttytab (ttyinit K dev s) (dvdata K dev) = 1"
  using assms
  by (auto simp add: ttyinit_def Let_def emit_def outpt_def init_queue_def MAXBUF_def
      new_events_def)

theorem ttyinit_idempotent_witness:
  "(ttyinit pc 0 (ttyinit pc 0 both_pending))\<lparr>events := []\<rparr>
     = (ttyinit pc 0 both_pending)\<lparr>events := []\<rparr>
   \<and> outQueue (ttyinit pc 0 both_pending) = \<lparr>qmax = 6, items = []\<rparr>
   \<and> ttytab (ttyinit pc 0 both_pending) 0 = 1"
  using ttyinit_idempotent [of pc 0 both_pending] by (simp add: pc_def)

subsection \<open>The interrupt handler\<close>

text \<open>
  C1: a receive interrupt on the first port while the queues are empty and the echo flag
  is set. After the byte is read and put into the receive and the echo queue, the handler
  goes on into the transmit case: it takes the byte from the echo queue again and writes
  it to the transmit register, all in the same invocation.
\<close>

theorem irqinthandc_receive_falls_through:
  "events (run_handler pc (IRQ4 4 0x61) booted)
     = [(Isr, False, Inpt 0x3fa 4), (Isr, False, PicEndInt), (Isr, False, Inpt 0x3f8 0x61),
        (Isr, False, Enqueue QIn 0x61 True), (Isr, False, Enqueue QEcho 0x61 True),
        (Isr, False, Dequeue QEcho (Some 0x61)), (Isr, False, Outpt 0x3f8 0x61),
        (Isr, False, Outpt 0x3f9 1)]"
  by (simp add: isr_defs prim_defs pc_def booted_def MAXBUF_def Let_def)

text \<open>
  C2, as stated, fails: a transmit interrupt with one byte in the echo queue and two in
  the transmit queue writes two bytes to the transmit register, and the transmit queue
  loses its head.
\<close>

theorem irqinthandc_both_counterexample:
  "events (run_handler pc (IRQ4 2 0) both_pending)
     = [(Isr, False, Inpt 0x3fa 2), (Isr, False, PicEndInt),
        (Isr, False, Dequeue QEcho (Some 0x65)), (Isr, False, Outpt 0x3f8 0x65),
        (Isr, False, Dequeue QOut (Some 0x74)), (Isr, False, Outpt 0x3f8 0x74),
        (Isr, False, Outpt 0x3f9 1)]
   \<and> outQueue (run_handler pc (IRQ4 2 0) both_pending) \<noteq> outQueue both_pending"
  by (simp add: isr_defs prim_defs pc_def booted_def both_pending_def MAXBUF_def Let_def)

text \<open>
  C2, amended: when \<open>irqinthandc\<close> services a transmit-ready condition with both the
  echo queue and the transmit queue non-empty, it moves one byte from each queue: the
  calls of the invocation are the read of the identification register, the end of
  interrupt, the dequeue of the head of the echo queue and its write to the transmit
  register, then the dequeue of the head of the transmit queue and its write to the
  transmit register, and the write of \<open>UART_IER_RDI\<close>; each of the two queues loses
  its head and the receive queue is unchanged.
\<close>

theorem irqinthandc_transmit_both:
  assumes "hw_iir AND UART_IIR_ID K = UART_IIR_THRI K"
    and "UART_IIR_THRI K \<noteq> UART_IIR_RDI K"
    and "items (echoQueue s) = e # es"
    and "items (outQueue s) = t # ts"
  shows "new_events s (irqinthandc K dev hw_iir hw_rx s)
      = map (\<lambda>c. (running s, eflags_IF s, c))
          [Inpt (dvbaseport K dev + UART_IIR K) hw_iir, PicEndInt,
           Dequeue QEcho (Some e), Outpt (dvbaseport K dev + UART_TX K) (uint e),
           Dequeue QOut (Some t), Outpt (dvbaseport K dev + UART_TX K) (uint t),
           Outpt (dvbaseport K dev + UART_IER K) (UART_IER_RDI K)]
    \<and> echoQueue (irqinthandc K dev hw_iir hw_rx s) = (echoQueue s)\<lparr>items := es\<rparr>
    \<and> outQueue (irqinthandc K dev hw_iir hw_rx s) = (outQueue s)\<lparr>items := ts\<rparr>
    \<and> inQueue (irqinthandc K dev hw_iir hw_rx s) = inQueue s"
  using assms by (simp add: isr_defs prim_defs Let_def new_events_def)

theorem irqinthandc_transmit_both_witness:
  "new_events (both_pending\<lparr>eflags_IF := False, running := Isr\<rparr>)
       (irqinthandc pc 0 2 0 (both_pending\<lparr>eflags_IF := False, running := Isr\<rparr>))
      = [(Isr, False, Inpt 0x3fa 2), (Isr, False, PicEndInt),
         (Isr, False, Dequeue QEcho (Some 0x65)), (Isr, False, Outpt 0x3f8 0x65),
         (Isr, False, Dequeue QOut (Some 0x74)), (Isr, False, Outpt 0x3f8 0x74),
         (Isr, False, Outpt 0x3f9 1)]
   \<and> items (outQueue (irqinthandc pc 0 2 0
        (both_pending\<lparr>eflags_IF := False, running := Isr\<rparr>))) = [0x75]"
  using irqinthandc_transmit_both [of 2 pc "both_pending\<lparr>eflags_IF := False, running := Isr\<rparr>"
      "0x65" "[]" "0x74" "[0x75]" 0 0]
  by (simp add: pc_def both_pending_def booted_def)

subsection \<open>The loop of ttywrite\<close>

lemma run_seg_trans:
  assumes "run_seg s t te1 at1 n1" and "run_seg t u te2 at2 n2"
  shows "run_seg s u (te1 @ te2) (at1 @ at2) (n1 + n2)"
proof -
  from assms have e1: "events t = events s @ new_events s t"
    and e2: "events u = events t @ new_events t u"
    by (simp_all add: run_seg_def)
  note c = new_events_chain [OF e1 e2]
  from assms have q1: "items (outQueue s) @ accepted QOut (new_events s t)
      = dequeued QOut (new_events s t) @ items (outQueue t)"
    and q2: "items (outQueue t) @ accepted QOut (new_events t u)
      = dequeued QOut (new_events t u) @ items (outQueue u)"
    by (simp_all add: run_seg_def)
  have "items (outQueue s) @ accepted QOut (new_events s u)
      = (items (outQueue s) @ accepted QOut (new_events s t)) @ accepted QOut (new_events t u)"
    by (simp add: c(2))
  also have "\<dots> = dequeued QOut (new_events s t)
      @ (items (outQueue t) @ accepted QOut (new_events t u))"
    by (simp add: q1)
  also have "\<dots> = dequeued QOut (new_events s u) @ items (outQueue u)"
    by (simp add: q2 c(2))
  finally have q: "items (outQueue s) @ accepted QOut (new_events s u)
      = dequeued QOut (new_events s u) @ items (outQueue u)" .
  from assms have r: "events t = events s @ new_events s t"
    "task_events (new_events s t) = te1" "task_events (new_events t u) = te2"
    "attempts QOut (new_events s t) = at1" "attempts QOut (new_events t u) = at2"
    "ttytab t = ttytab s" "ttytab u = ttytab t" "running t = running s" "running u = running t"
    "length (items (outQueue t)) \<le> length (items (outQueue s)) + n1"
    "length (items (outQueue u)) \<le> length (items (outQueue t)) + n2"
    "qmax (outQueue t) = qmax (outQueue s)" "qmax (outQueue u) = qmax (outQueue t)"
    by (simp_all add: run_seg_def)
  show ?thesis
    unfolding run_seg_def using c q r by simp
qed

lemma run_seg_isr: "isr_effect s t \<Longrightarrow> run_seg s t [] [] 0"
  by (simp add: run_seg_def isr_effect_def Let_def accepted_def)

lemma run_seg_deliver: "run_seg s (deliver K w s) [] [] 0"
  by (rule run_seg_isr) (rule deliver_isr)

lemma run_seg_outpt: "running s = Task \<Longrightarrow> run_seg s (outpt p v s) [Outpt p v] [] 0"
  by (simp add: run_seg_def outpt_def emit_def new_events_def)

lemma run_seg_sti: "running s = Task \<Longrightarrow> run_seg s (sti s) [Sti] [] 0"
  by (simp add: run_seg_def sti_def emit_def new_events_def)

lemma run_seg_cli: "running s = Task \<Longrightarrow> run_seg s (cli s) [Cli] [] 0"
  by (simp add: run_seg_def cli_def emit_def new_events_def)

lemma run_seg_debug_log: "run_seg s (debug_log m s) [] [] 0"
  by (simp add: run_seg_def debug_log_def new_events_def)

lemma run_seg_enqueue:
  "running s = Task \<Longrightarrow> do_enqueue QOut b s = (ok, t)
    \<Longrightarrow> run_seg s t [Enqueue QOut b ok] [(b, ok)] 1
        \<and> ok = (length (items (outQueue s)) < qmax (outQueue s))"
  by (auto simp add: run_seg_def prim_defs new_events_def split: if_splits)

lemma ttywrite_body_seg:
  assumes r: "running s = Task" and body: "ttywrite_body K baseport buf w i s = (i1, s1)"
  shows "run_seg s s1 (write_calls K baseport (buf (nat i), i1 \<noteq> i))
           [(buf (nat i), i1 \<noteq> i)] 1"
    and "i1 = (if length (items (outQueue s)) < qmax (outQueue s) then i + 1 else i)"
proof -
  let ?b = "buf (nat i)"
  let ?kick = "Outpt (baseport + UART_IER K) (UART_IER_THRI K)"
  obtain ok sa where en: "do_enqueue QOut ?b s = (ok, sa)"
    by (cases "do_enqueue QOut ?b s") auto
  note e = run_seg_enqueue [OF r en]
  from e have a: "run_seg s sa [Enqueue QOut ?b ok] [(?b, ok)] 1"
    by (rule conjunct1)
  from e have okv: "ok = (length (items (outQueue s)) < qmax (outQueue s))"
    by (rule conjunct2)
  define sb where "sb = deliver K (after_enqueue w) sa"
  have "run_seg sa sb [] [] 0" unfolding sb_def by (rule run_seg_deliver)
  with a have b: "run_seg s sb ([Enqueue QOut ?b ok] @ []) ([(?b, ok)] @ []) (1 + 0)"
    by (rule run_seg_trans)
  then have rb: "running sb = Task" using r by (simp add: run_seg_def)
  show "i1 = (if length (items (outQueue s)) < qmax (outQueue s) then i + 1 else i)"
    using body en okv by (auto simp add: ttywrite_body_def Let_def split: if_splits)
  show "run_seg s s1 (write_calls K baseport (?b, i1 \<noteq> i)) [(?b, i1 \<noteq> i)] 1"
  proof (cases ok)
    case False
    with body en have i1: "i1 = i" and s1: "s1 = sti sb"
      by (simp_all add: ttywrite_body_def Let_def sb_def)
    have "run_seg sb (sti sb) [Sti] [] 0" using rb by (rule run_seg_sti)
    with b have "run_seg s (sti sb) (([Enqueue QOut ?b ok] @ []) @ [Sti])
        (([(?b, ok)] @ []) @ []) (1 + 0 + 0)"
      by (rule run_seg_trans)
    with False i1 s1 show ?thesis by (simp add: write_calls_def)
  next
    case True
    define sc where "sc = outpt (baseport + UART_IER K) (UART_IER_THRI K) sb"
    define sd where "sd = deliver K (after_outpt w) sc"
    define se where "se = debug_log [0x3C, ?b] sd"
    define sf where "sf = deliver K (after_log w) se"
    from True body en have i1: "i1 = i + 1" and s1: "s1 = sti sf"
      by (simp_all add: ttywrite_body_def Let_def sb_def sc_def sd_def se_def sf_def)
    have "run_seg sb sc [?kick] [] 0"
      unfolding sc_def using rb by (rule run_seg_outpt)
    with b have c: "run_seg s sc (([Enqueue QOut ?b ok] @ []) @ [?kick])
        (([(?b, ok)] @ []) @ []) (1 + 0 + 0)"
      by (rule run_seg_trans)
    have "run_seg sc sd [] [] 0" unfolding sd_def by (rule run_seg_deliver)
    with c have d: "run_seg s sd [Enqueue QOut ?b ok, ?kick] [(?b, ok)] 1"
      using run_seg_trans by fastforce
    have "run_seg sd se [] [] 0" unfolding se_def by (rule run_seg_debug_log)
    with d have e: "run_seg s se [Enqueue QOut ?b ok, ?kick] [(?b, ok)] 1"
      using run_seg_trans by fastforce
    have "run_seg se sf [] [] 0" unfolding sf_def by (rule run_seg_deliver)
    with e have f: "run_seg s sf [Enqueue QOut ?b ok, ?kick] [(?b, ok)] 1"
      using run_seg_trans by fastforce
    then have "running sf = Task" using r by (simp add: run_seg_def)
    then have "run_seg sf (sti sf) [Sti] [] 0" by (rule run_seg_sti)
    with f have "run_seg s (sti sf) ([Enqueue QOut ?b ok, ?kick] @ [Sti])
        ([(?b, ok)] @ []) (1 + 0)"
      by (rule run_seg_trans)
    with True i1 s1 show ?thesis by (simp add: write_calls_def)
  qed
qed

lemma ttywrite_loop_inv:
  "ttywrite_loop K baseport buf nchar sched i s = Some s' \<Longrightarrow> 0 \<le> i \<Longrightarrow> i \<le> nchar
    \<Longrightarrow> running s = Task
    \<Longrightarrow> \<exists>at n. run_seg s s' (concat (map (write_calls K baseport) at)) at n
          \<and> at = write_attempts buf (nat i) (map snd at)
          \<and> map fst (filter snd at) = map buf [nat i..<nat nchar]"
proof (induction sched arbitrary: i s)
  case Nil
  then have "i = nchar" "s' = s" by (auto split: if_splits)
  then have "run_seg s s' (concat (map (write_calls K baseport) [])) [] 0
      \<and> [] = write_attempts buf (nat i) (map snd [])
      \<and> map fst (filter snd []) = map buf [nat i..<nat nchar]"
    by (simp add: run_seg_def new_events_def)
  then show ?case by blast
next
  case (Cons w ws)
  show ?case
  proof (cases "i < nchar")
    case False
    with Cons.prems have "i = nchar" "s' = s" by auto
    then have "run_seg s s' (concat (map (write_calls K baseport) [])) [] 0
      \<and> [] = write_attempts buf (nat i) (map snd [])
      \<and> map fst (filter snd []) = map buf [nat i..<nat nchar]"
      by (simp add: run_seg_def new_events_def)
    then show ?thesis by blast
  next
    case True
    obtain i1 s1 where body: "ttywrite_body K baseport buf w i s = (i1, s1)"
      by (cases "ttywrite_body K baseport buf w i s") auto
    define s2 where "s2 = deliver K (after_sti w) s1"
    from Cons.prems(1) True body
    have rest: "ttywrite_loop K baseport buf nchar ws i1 s2 = Some s'"
      by (simp add: s2_def)
    note b = ttywrite_body_seg [OF Cons.prems(4) body]
    from b(2) True Cons.prems have i1: "0 \<le> i1" "i1 \<le> nchar" by (auto split: if_splits)
    have "run_seg s1 s2 [] [] 0" unfolding s2_def by (rule run_seg_deliver)
    with b(1) have seg2: "run_seg s s2 (write_calls K baseport (buf (nat i), i1 \<noteq> i) @ [])
        ([(buf (nat i), i1 \<noteq> i)] @ []) (1 + 0)"
      by (rule run_seg_trans)
    then have r2: "running s2 = Task" using Cons.prems(4) by (simp add: run_seg_def)
    from Cons.IH [OF rest i1 r2] obtain at n
      where seg: "run_seg s2 s' (concat (map (write_calls K baseport) at)) at n"
        and wa: "at = write_attempts buf (nat i1) (map snd at)"
        and acc: "map fst (filter snd at) = map buf [nat i1..<nat nchar]"
      by blast
    let ?a = "(buf (nat i), i1 \<noteq> i)"
    from seg2 seg
    have "run_seg s s'
        ((write_calls K baseport ?a @ []) @ concat (map (write_calls K baseport) at))
        (([?a] @ []) @ at) (1 + 0 + n)"
      by (rule run_seg_trans)
    then have g1: "run_seg s s' (concat (map (write_calls K baseport) (?a # at))) (?a # at)
        (1 + 0 + n)"
      by simp
    from b(2) Cons.prems(2) have ni: "nat i1 = (if i1 \<noteq> i then Suc (nat i) else nat i)"
      by (auto split: if_splits)
    have "write_attempts buf (nat i) (map snd (?a # at))
        = ?a # write_attempts buf (nat i1) (map snd at)"
      using ni by simp
    with wa have g2: "?a # at = write_attempts buf (nat i) (map snd (?a # at))" by simp
    from True Cons.prems(2) have "nat i < nat nchar" by simp
    then have up: "[nat i..<nat nchar] = nat i # [Suc (nat i)..<nat nchar]"
      by (rule upt_conv_Cons)
    have g3: "map fst (filter snd (?a # at)) = map buf [nat i..<nat nchar]"
      using acc ni up by (cases "i1 = i") simp_all
    from g1 g2 g3 show ?thesis by blast
  qed
qed

lemma ttywrite_loop_returns:
  "running s = Task \<Longrightarrow> 0 \<le> i
    \<Longrightarrow> length (items (outQueue s)) + nat (nchar - i) \<le> qmax (outQueue s)
    \<Longrightarrow> nat (nchar - i) \<le> length sched
    \<Longrightarrow> ttywrite_loop K baseport buf nchar sched i s \<noteq> None"
proof (induction sched arbitrary: i s)
  case Nil
  then show ?case by simp
next
  case (Cons w ws)
  show ?case
  proof (cases "i < nchar")
    case False
    then show ?thesis by simp
  next
    case True
    obtain i1 s1 where body: "ttywrite_body K baseport buf w i s = (i1, s1)"
      by (cases "ttywrite_body K baseport buf w i s") auto
    define s2 where "s2 = deliver K (after_sti w) s1"
    note b = ttywrite_body_seg [OF Cons.prems(1) body]
    from True Cons.prems(3) have "length (items (outQueue s)) < qmax (outQueue s)" by simp
    with b(2) have i1: "i1 = i + 1" by simp
    have "run_seg s1 s2 [] [] 0" unfolding s2_def by (rule run_seg_deliver)
    with b(1) have seg2: "run_seg s s2 (write_calls K baseport (buf (nat i), i1 \<noteq> i) @ [])
        ([(buf (nat i), i1 \<noteq> i)] @ []) (1 + 0)"
      by (rule run_seg_trans)
    then have r2: "running s2 = Task"
      and l2: "length (items (outQueue s2)) \<le> length (items (outQueue s)) + 1"
      and q2: "qmax (outQueue s2) = qmax (outQueue s)"
      using Cons.prems(1) by (simp_all add: run_seg_def)
    have "ttywrite_loop K baseport buf nchar ws i1 s2 \<noteq> None"
      using r2 l2 q2 i1 True Cons.prems by (intro Cons.IH) auto
    with body True show ?thesis by (simp add: s2_def)
  qed
qed

lemma ttywrite_loop_full:
  "0 \<le> i \<Longrightarrow> i < nchar \<Longrightarrow> qmax (outQueue s) \<le> length (items (outQueue s))
    \<Longrightarrow> \<forall>w\<in>set sched. w = quiet
    \<Longrightarrow> ttywrite_loop K baseport buf nchar sched i s = None"
proof (induction sched arbitrary: s)
  case Nil
  then show ?case by simp
next
  case (Cons w ws)
  from Cons.prems(4) have w: "w = quiet" and ws: "\<forall>w\<in>set ws. w = quiet" by simp_all
  define s1 where "s1 = sti (snd (do_enqueue QOut (buf (nat i)) s))"
  have body: "ttywrite_body K baseport buf w i s = (i, s1)"
    using Cons.prems(3) w
    by (simp add: ttywrite_body_def s1_def do_enqueue_def enqueue_def get_queue_def
        deliver_def quiet_def Let_def)
  have q: "outQueue s1 = outQueue s"
    using Cons.prems(3) by (simp add: s1_def prim_defs)
  have "ttywrite_loop K baseport buf nchar ws i s1 = None"
    using Cons.prems(1,2) _ ws by (rule Cons.IH) (simp add: q Cons.prems(3))
  with body w Cons.prems(2) show ?case by (simp add: deliver_def quiet_def)
qed

subsection \<open>The two lines\<close>

lemma deliver_ttytab: "ttytab (deliver K w s) = ttytab s"
  using deliver_isr [of s K w] by (simp add: isr_effect_def Let_def)

lemma ttywrite_body_ttytab:
  "ttywrite_body K baseport buf w i s = (i1, s1) \<Longrightarrow> ttytab s1 = ttytab s"
  by (auto simp add: ttywrite_body_def Let_def deliver_ttytab sti_def emit_def outpt_def
      debug_log_def do_enqueue_def set_queue_def split: prod.splits if_splits)

lemma ttywrite_loop_ttytab:
  "ttywrite_loop K baseport buf nchar sched i s = Some s' \<Longrightarrow> ttytab s' = ttytab s"
proof (induction sched arbitrary: i s)
  case Nil
  then show ?case by (simp split: if_splits)
next
  case (Cons w ws)
  show ?case
  proof (cases "i < nchar")
    case False
    with Cons.prems show ?thesis by simp
  next
    case True
    obtain i1 s1 where body: "ttywrite_body K baseport buf w i s = (i1, s1)"
      by (cases "ttywrite_body K baseport buf w i s") auto
    with Cons.prems True
    have "ttywrite_loop K baseport buf nchar ws i1 (deliver K (after_sti w) s1) = Some s'"
      by simp
    then have "ttytab s' = ttytab (deliver K (after_sti w) s1)" by (rule Cons.IH)
    with body show ?thesis by (simp add: deliver_ttytab ttywrite_body_ttytab)
  qed
qed

lemma ttyread_ttytab:
  assumes "ttyread K dev buf nchar sched s = Some (ret, buf', s')"
  shows "ttytab s' = ttytab s"
proof (cases "0 \<le> nchar")
  case True
  from assms have l: "ttyread_loop K nchar sched 0 buf s = Some (buf', s')"
    by (auto simp add: ttyread_def split: option.splits)
  have z: "(0::int) \<le> 0" by simp
  from ttyread_loop_inv [OF l z True] show ?thesis by simp
next
  case False
  with assms have "s' = s"
    by (cases sched) (auto simp add: ttyread_def split: option.splits)
  then show ?thesis by simp
qed

lemma ttywrite_ttytab:
  assumes "ttywrite K dev buf nchar sched s = Some (ret, s')"
  shows "ttytab s' = ttytab s"
proof -
  from assms have "ttywrite_loop K (dvbaseport K dev) buf nchar sched 0 (cli s) = Some s'"
    by (auto simp add: ttywrite_def Let_def split: option.splits)
  then have "ttytab s' = ttytab (cli s)" by (rule ttywrite_loop_ttytab)
  then show ?thesis by (simp add: cli_def emit_def)
qed

text \<open>
  C3, as stated, fails: the driver has one receive, one transmit and one echo queue for
  both lines. The byte that an interrupt of the first port has put into the receive
  queue is returned by a \<open>ttyread\<close> on the second device, and is gone after a
  \<open>ttyinit\<close> of the second device.
\<close>

theorem shared_queue_counterexample:
  "items (inQueue (run_handler pc (IRQ4 4 0x61) booted)) = [0x61]
   \<and> map_option (\<lambda>(ret, buf', s'). (ret, buf' 0))
        (ttyread pc (TTY1 pc) zero_buf 1 [[]] (run_handler pc (IRQ4 4 0x61) booted))
       = Some (1, 0x61)
   \<and> items (inQueue (ttyinit pc (TTY1 pc) (run_handler pc (IRQ4 4 0x61) booted))) = []"
  by code_simp

text \<open>
  C3, amended: the three queues are shared by the lines (\<open>ttyread\<close> does the same on
  every device, and \<open>ttyinit\<close> of any device leaves the same three queues); what a line
  has of its own is its echo flag, and \<open>ttyinit\<close>, \<open>ttycontrol\<close>, \<open>ttyread\<close> and
  \<open>ttywrite\<close> on one device, and an interrupt of either port, leave the echo flag of
  every other line unchanged.
\<close>

theorem other_line_kept:
  assumes "n \<noteq> dvdata K dev"
  shows "ttytab (ttyinit K dev s) n = ttytab s n
    \<and> ttytab (snd (ttycontrol K dev fncode val s)) n = ttytab s n
    \<and> ttytab (run_handler K r s) n = ttytab s n
    \<and> (\<forall>ret buf' s'. ttyread K dev buf nchar rsched s = Some (ret, buf', s')
          \<longrightarrow> ttytab s' n = ttytab s n)
    \<and> (\<forall>ret s'. ttywrite K dev buf nchar wsched s = Some (ret, s')
          \<longrightarrow> ttytab s' n = ttytab s n)
    \<and> ttyread K dev buf nchar rsched s = ttyread K dev' buf nchar rsched s
    \<and> inQueue (ttyinit K dev s) = inQueue (ttyinit K dev' s)
    \<and> outQueue (ttyinit K dev s) = outQueue (ttyinit K dev' s)
    \<and> echoQueue (ttyinit K dev s) = echoQueue (ttyinit K dev' s)"
proof -
  have a: "ttytab (ttyinit K dev s) n = ttytab s n"
    using assms by (simp add: ttyinit_def Let_def emit_def outpt_def)
  have b: "ttytab (snd (ttycontrol K dev fncode val s)) n = ttytab s n"
    using assms by (simp add: ttycontrol_def)
  have c: "ttytab (run_handler K r s) n = ttytab s n"
    using run_handler_isr [of s K r] by (simp add: isr_effect_def Let_def)
  have d: "\<forall>ret buf' s'. ttyread K dev buf nchar rsched s = Some (ret, buf', s')
          \<longrightarrow> ttytab s' n = ttytab s n"
    using ttyread_ttytab by metis
  have e: "\<forall>ret s'. ttywrite K dev buf nchar wsched s = Some (ret, s')
          \<longrightarrow> ttytab s' n = ttytab s n"
    using ttywrite_ttytab by metis
  have f: "ttyread K dev buf nchar rsched s = ttyread K dev' buf nchar rsched s"
    by (simp add: ttyread_def)
  have g: "inQueue (ttyinit K dev s) = inQueue (ttyinit K dev' s)"
    "outQueue (ttyinit K dev s) = outQueue (ttyinit K dev' s)"
    "echoQueue (ttyinit K dev s) = echoQueue (ttyinit K dev' s)"
    by (simp_all add: ttyinit_def Let_def emit_def outpt_def)
  from a b c d e f g show ?thesis by (intro conjI)
qed

lemma two_bytes_run:
  "\<not> Option.is_none (ttyread pc 0 ab_buf 2 xyz_arrivals booted)
   \<and> \<not> Option.is_none (ttywrite pc 0 ab_buf 2 [quiet, quiet] booted)"
  by code_simp

theorem other_line_kept_witness:
  "(1::nat) \<noteq> dvdata pc 0
   \<and> ttytab (ttyinit pc 0 booted) 1 = ttytab booted 1
   \<and> (\<exists>ret buf' s'. ttyread pc 0 ab_buf 2 xyz_arrivals booted = Some (ret, buf', s')
         \<and> ttytab s' 1 = ttytab booted 1)
   \<and> (\<exists>ret s'. ttywrite pc 0 ab_buf 2 [quiet, quiet] booted = Some (ret, s')
         \<and> ttytab s' 1 = ttytab booted 1)"
proof -
  have h: "(1::nat) \<noteq> dvdata pc 0" by (simp add: pc_def)
  note t = other_line_kept [where K = pc and dev = 0 and n = 1 and s = booted
      and buf = ab_buf and nchar = 2 and rsched = xyz_arrivals
      and wsched = "[quiet, quiet]", OF h]
  from t have a: "ttytab (ttyinit pc 0 booted) 1 = ttytab booted 1" by (rule conjunct1)
  obtain ret buf' s' where r: "ttyread pc 0 ab_buf 2 xyz_arrivals booted = Some (ret, buf', s')"
    using two_bytes_run by (cases "ttyread pc 0 ab_buf 2 xyz_arrivals booted") auto
  obtain ret2 s2 where w: "ttywrite pc 0 ab_buf 2 [quiet, quiet] booted = Some (ret2, s2)"
    using two_bytes_run by (cases "ttywrite pc 0 ab_buf 2 [quiet, quiet] booted") auto
  have b: "ttytab s' 1 = ttytab booted 1"
    using t [THEN conjunct2, THEN conjunct2, THEN conjunct2, THEN conjunct1, rule_format, OF r] .
  have c: "ttytab s2 1 = ttytab booted 1"
    using t [THEN conjunct2, THEN conjunct2, THEN conjunct2, THEN conjunct2, THEN conjunct1,
        rule_format, OF w] .
  from h a r b w c show ?thesis by (intro conjI exI)
qed

subsection \<open>ttywrite\<close>

text \<open>
  C5: for \<open>nchar \<ge> 0\<close>, whenever \<open>ttywrite(dev, buf, nchar)\<close> returns, it returns
  \<open>nchar\<close>; the bytes accepted by the transmit queue during the call are
  \<open>buf[0..nchar)\<close> in their order; its attempts are those of \<open>write_attempts\<close>: a
  refused byte is offered again, never skipped; its own calls are the \<open>cli\<close>
  followed, for each attempt, by the \<open>enqueue\<close>, then the write of \<open>UART_IER_THRI\<close> to
  the interrupt-enable register if the byte was accepted, then the \<open>sti\<close>; and the
  bytes are in the transmit queue: what the queue held at the call followed by the
  accepted bytes is what the handlers have dequeued from it during the call followed by
  what it holds at the return. While the transmit queue is full and no interrupt arrives
  the call does not return (no error is returned); with room for \<open>nchar\<close> bytes it
  returns.
\<close>

theorem ttywrite_enqueues:
  assumes "0 \<le> nchar" and "running s = Task"
  shows "(\<forall>ret s'. ttywrite K dev buf nchar sched s = Some (ret, s') \<longrightarrow>
            ret = nchar
            \<and> accepted QOut (new_events s s') = map buf [0..<nat nchar]
            \<and> attempts QOut (new_events s s')
                = write_attempts buf 0 (map snd (attempts QOut (new_events s s')))
            \<and> task_events (new_events s s')
                = Cli # concat (map (write_calls K (dvbaseport K dev))
                                  (attempts QOut (new_events s s')))
            \<and> items (outQueue s) @ accepted QOut (new_events s s')
                = dequeued QOut (new_events s s') @ items (outQueue s'))
       \<and> (0 < nchar \<and> qmax (outQueue s) \<le> length (items (outQueue s))
            \<and> (\<forall>w\<in>set sched. w = quiet) \<longrightarrow>
            ttywrite K dev buf nchar sched s = None)
       \<and> (length (items (outQueue s)) + nat nchar \<le> qmax (outQueue s)
            \<and> nat nchar \<le> length sched \<longrightarrow>
            ttywrite K dev buf nchar sched s \<noteq> None)"
proof -
  have c0: "run_seg s (cli s) [Cli] [] 0" using assms(2) by (rule run_seg_cli)
  then have r0: "running (cli s) = Task" using assms(2) by (simp add: run_seg_def)
  have q0: "outQueue (cli s) = outQueue s" by (simp add: cli_def emit_def)
  have z: "(0::int) \<le> 0" by simp
  have a: "ret = nchar
            \<and> accepted QOut (new_events s s') = map buf [0..<nat nchar]
            \<and> attempts QOut (new_events s s')
                = write_attempts buf 0 (map snd (attempts QOut (new_events s s')))
            \<and> task_events (new_events s s')
                = Cli # concat (map (write_calls K (dvbaseport K dev))
                                  (attempts QOut (new_events s s')))
            \<and> items (outQueue s) @ accepted QOut (new_events s s')
                = dequeued QOut (new_events s s') @ items (outQueue s')"
    if "ttywrite K dev buf nchar sched s = Some (ret, s')" for ret s'
  proof -
    from that have r: "ret = nchar"
      and l: "ttywrite_loop K (dvbaseport K dev) buf nchar sched 0 (cli s) = Some s'"
      by (auto simp add: ttywrite_def Let_def split: option.splits)
    from ttywrite_loop_inv [OF l z assms(1) r0] obtain at n
      where seg: "run_seg (cli s) s' (concat (map (write_calls K (dvbaseport K dev)) at)) at n"
        and wa: "at = write_attempts buf (nat 0) (map snd at)"
        and acc: "map fst (filter snd at) = map buf [nat 0..<nat nchar]"
      by blast
    from c0 seg
    have "run_seg s s' ([Cli] @ concat (map (write_calls K (dvbaseport K dev)) at)) ([] @ at) (0 + n)"
      by (rule run_seg_trans)
    then have t: "task_events (new_events s s')
          = Cli # concat (map (write_calls K (dvbaseport K dev)) at)"
      and at: "attempts QOut (new_events s s') = at"
      and q: "items (outQueue s) @ accepted QOut (new_events s s')
          = dequeued QOut (new_events s s') @ items (outQueue s')"
      by (simp_all add: run_seg_def)
    from wa have wa': "at = write_attempts buf 0 (map snd at)" by simp
    from acc have acc': "map fst (filter snd at) = map buf [0..<nat nchar]" by simp
    have g1: "accepted QOut (new_events s s') = map buf [0..<nat nchar]"
      unfolding accepted_def at by (rule acc')
    have g2: "attempts QOut (new_events s s')
        = write_attempts buf 0 (map snd (attempts QOut (new_events s s')))"
      unfolding at by (rule wa')
    have g3: "task_events (new_events s s')
        = Cli # concat (map (write_calls K (dvbaseport K dev))
                          (attempts QOut (new_events s s')))"
      unfolding at by (rule t)
    from r g1 g2 g3 q show ?thesis by (intro conjI)
  qed
  have b: "ttywrite K dev buf nchar sched s = None"
    if "0 < nchar \<and> qmax (outQueue s) \<le> length (items (outQueue s))
            \<and> (\<forall>w\<in>set sched. w = quiet)"
  proof -
    from that have "ttywrite_loop K (dvbaseport K dev) buf nchar sched 0 (cli s) = None"
      by (intro ttywrite_loop_full) (simp_all add: q0)
    then show ?thesis by (simp add: ttywrite_def)
  qed
  have c: "ttywrite K dev buf nchar sched s \<noteq> None"
    if "length (items (outQueue s)) + nat nchar \<le> qmax (outQueue s)
            \<and> nat nchar \<le> length sched"
  proof -
    from that r0 have "ttywrite_loop K (dvbaseport K dev) buf nchar sched 0 (cli s) \<noteq> None"
      by (intro ttywrite_loop_returns) (simp_all add: q0)
    then show ?thesis by (auto simp add: ttywrite_def Let_def split: option.splits)
  qed
  from a b c show ?thesis by blast
qed

lemma retry_run:
  "map_option (\<lambda>(ret, s'). (ret, attempts QOut (new_events full_out s'),
                  dequeued QOut (new_events full_out s')))
     (ttywrite pc 0 ab_buf 1 [drain_once, quiet] full_out)
   = Some (1, [(0x61, False), (0x61, True)], [1])"
  by code_simp

theorem ttywrite_enqueues_witness:
  "(\<exists>s'. ttywrite pc 0 ab_buf 1 [drain_once, quiet] full_out = Some (1, s')
      \<and> attempts QOut (new_events full_out s') = [(0x61, False), (0x61, True)]
      \<and> accepted QOut (new_events full_out s') = [0x61]
      \<and> task_events (new_events full_out s')
          = [Cli, Enqueue QOut 0x61 False, Sti, Enqueue QOut 0x61 True, Outpt 0x3f9 2, Sti]
      \<and> items (outQueue s') = [2, 3, 4, 5, 6, 0x61])
   \<and> ttywrite pc 0 ab_buf 1 [quiet, quiet, quiet] full_out = None
   \<and> ttywrite pc 0 ab_buf 2 [quiet, quiet] booted \<noteq> None"
proof -
  obtain ret s' where run: "ttywrite pc 0 ab_buf 1 [drain_once, quiet] full_out = Some (ret, s')"
    and at: "attempts QOut (new_events full_out s') = [(0x61, False), (0x61, True)]"
    and dq: "dequeued QOut (new_events full_out s') = [1]"
    using retry_run by (cases "ttywrite pc 0 ab_buf 1 [drain_once, quiet] full_out") auto
  have h: "(0::int) \<le> 1" by simp
  have h2: "(0::int) \<le> 2" by simp
  have rf: "running full_out = Task" by (simp add: full_out_def booted_def)
  have rb: "running booted = Task" by (simp add: booted_def)
  note t = ttywrite_enqueues [OF h rf, of pc 0 ab_buf "[drain_once, quiet]"]
  note g = t [THEN conjunct1, rule_format, OF run]
  from g have r: "ret = 1" by (rule conjunct1)
  from g have ac: "accepted QOut (new_events full_out s') = map ab_buf [0..<nat 1]"
    by (rule conjunct2 [THEN conjunct1])
  from g have te: "task_events (new_events full_out s')
      = Cli # concat (map (write_calls pc (dvbaseport pc 0)) (attempts QOut (new_events full_out s')))"
    by (rule conjunct2 [THEN conjunct2, THEN conjunct2, THEN conjunct1])
  from g have fifo: "items (outQueue full_out) @ accepted QOut (new_events full_out s')
      = dequeued QOut (new_events full_out s') @ items (outQueue s')"
    by (rule conjunct2 [THEN conjunct2, THEN conjunct2, THEN conjunct2])
  from ac have ac': "accepted QOut (new_events full_out s') = [0x61]" by (simp add: ab_buf_def)
  from fifo ac' dq have oq: "items (outQueue s') = [2, 3, 4, 5, 6, 0x61]"
    by (simp add: full_out_def)
  from te at have te': "task_events (new_events full_out s')
      = [Cli, Enqueue QOut 0x61 False, Sti, Enqueue QOut 0x61 True, Outpt 0x3f9 2, Sti]"
    by (simp add: write_calls_def pc_def)
  from run r have run': "ttywrite pc 0 ab_buf 1 [drain_once, quiet] full_out = Some (1, s')"
    by simp
  have s: "0 < (1::int) \<and> qmax (outQueue full_out) \<le> length (items (outQueue full_out))
            \<and> (\<forall>w\<in>set [quiet, quiet, quiet]. w = quiet)"
    by (simp add: full_out_def MAXBUF_def)
  note t2 = ttywrite_enqueues [OF h rf, of pc 0 ab_buf "[quiet, quiet, quiet]"]
  have n: "ttywrite pc 0 ab_buf 1 [quiet, quiet, quiet] full_out = None"
    using t2 [THEN conjunct2, THEN conjunct1, rule_format, OF s] .
  have s3: "length (items (outQueue booted)) + nat 2 \<le> qmax (outQueue booted)
            \<and> nat 2 \<le> length [quiet, quiet]"
    by (simp add: booted_def init_queue_def MAXBUF_def)
  note t3 = ttywrite_enqueues [OF h2 rb, of pc 0 ab_buf "[quiet, quiet]"]
  have m: "ttywrite pc 0 ab_buf 2 [quiet, quiet] booted \<noteq> None"
    using t3 [THEN conjunct2, THEN conjunct2, rule_format, OF s3] .
  from run' at ac' te' oq n m show ?thesis by (intro conjI exI)
qed

text \<open>
  C10: \<open>ttywrite\<close> with \<open>nchar \<le> 0\<close> returns \<open>nchar\<close> at once. Its only call is the
  \<open>cli\<close> before the loop: nothing is enqueued, no register is written, and the
  interrupt flag is clear on return.
\<close>

theorem ttywrite_nonpositive:
  assumes "nchar \<le> 0"
  shows "ttywrite K dev buf nchar sched s
    = Some (nchar, s\<lparr>eflags_IF := False,
                     events := events s @ [(running s, eflags_IF s, Cli)]\<rparr>)"
  using assms by (cases sched) (simp_all add: ttywrite_def cli_def emit_def)

theorem ttywrite_nonpositive_witness:
  "ttywrite pc 0 ab_buf 0 [] booted
    = Some (0, booted\<lparr>eflags_IF := False, events := [(Task, True, Cli)]\<rparr>)"
  using ttywrite_nonpositive [of 0 pc 0 ab_buf "[]" booted] by (simp add: booted_def)

text \<open>
  C6: \<open>ttywrite\<close> of the two bytes \<open>ab\<close>, entered with interrupts enabled and room in
  the transmit queue. The first \<open>enqueue\<close> is made with the interrupt flag clear; the
  \<open>sti\<close> at the end of the first iteration sets it, no \<open>cli\<close> follows, and the second
  \<open>enqueue\<close> is made with the flag set.
\<close>

theorem ttywrite_second_attempt_unprotected:
  "map_option (\<lambda>r. events (snd r)) (ttywrite pc 0 ab_buf 2 [quiet, quiet] booted)
     = Some [(Task, True, Cli),
             (Task, False, Enqueue QOut 0x61 True), (Task, False, Outpt 0x3f9 2),
             (Task, False, Sti),
             (Task, True, Enqueue QOut 0x62 True), (Task, True, Outpt 0x3f9 2),
             (Task, True, Sti)]"
  by (simp add: ttywrite_def ttywrite_body_def deliver_def quiet_def ab_buf_def prim_defs
      pc_def booted_def MAXBUF_def Let_def)

end
